theory Spec2Isabelle
  imports
    Complex_Main
    "HOL-Library.AList"
    "HOL-Library.Char_ord"
    "HOL-Library.List_Lexorder"
    "HOL-Library.Product_Lexorder"
begin

section \<open>Python values and exceptions\<close>

text \<open>
  The report code of \<^verbatim>\<open>src/report/report.py\<close> is embedded function by function.
  A raised exception is the left injection of a sum; the constructors carry the names
  of the Python exception classes.
\<close>

datatype error = IndexError | KeyError | ValueError | TypeError | AttributeError

text \<open>
  \<^verbatim>\<open>s[i]\<close> on a string or list: a negative index counts from the end, and an index
  outside \<^verbatim>\<open>-len(s) .. len(s)-1\<close> raises \<^verbatim>\<open>IndexError\<close>.
\<close>

definition getitem :: "'a list \<Rightarrow> int \<Rightarrow> error + 'a" where
  "getitem xs i =
     (let n = int (length xs); j = (if i < 0 then i + n else i)
      in if 0 \<le> j \<and> j < n then Inr (xs ! nat j) else Inl IndexError)"

text \<open>
  \<^verbatim>\<open>s[a:b]\<close> with both bounds given: a negative bound counts from the end, and
  each bound is clamped into \<^verbatim>\<open>0 .. len(s)\<close>; the slice is empty when the
  bounds cross.
\<close>

definition slice_bound :: "nat \<Rightarrow> int \<Rightarrow> nat" where
  "slice_bound n i = (if i < 0 then nat (max 0 (i + int n)) else min n (nat i))"

definition py_slice :: "'a list \<Rightarrow> int \<Rightarrow> int \<Rightarrow> 'a list" where
  "py_slice xs a b =
     (let lo = slice_bound (length xs) a; hi = slice_bound (length xs) b
      in take (hi - lo) (drop lo xs))"

text \<open>
  \<^verbatim>\<open>str.capitalize()\<close> over ASCII letters, which is what a nucleotide sequence
  holds: the first character in upper case, the others in lower case.
\<close>

definition upper_char :: "char \<Rightarrow> char" where
  "upper_char c =
     (case map_of (zip ''abcdefghijklmnopqrstuvwxyz'' ''ABCDEFGHIJKLMNOPQRSTUVWXYZ'') c of
        None \<Rightarrow> c
      | Some u \<Rightarrow> u)"

definition lower_char :: "char \<Rightarrow> char" where
  "lower_char c =
     (case map_of (zip ''ABCDEFGHIJKLMNOPQRSTUVWXYZ'' ''abcdefghijklmnopqrstuvwxyz'') c of
        None \<Rightarrow> c
      | Some l \<Rightarrow> l)"

definition capitalize :: "string \<Rightarrow> string" where
  "capitalize s = (case s of [] \<Rightarrow> [] | c # cs \<Rightarrow> upper_char c # map lower_char cs)"


section \<open>Variant decoration: APOBEC3 pattern and context sequence\<close>

text \<open>
  \<^verbatim>\<open>get_context_sequence(record, alt, vloc_seq, context_size)\<close>; the record is
  used through \<^verbatim>\<open>record.sequence\<close> only. The result is the pair
  \<^verbatim>\<open>(var_context, var_context_display)\<close>.
\<close>

definition get_context_sequence :: "string \<Rightarrow> string \<Rightarrow> int \<Rightarrow> int \<Rightarrow> string \<times> string" where
  "get_context_sequence sequence alt vloc_seq context_size =
     (let n = int (length sequence);
          context_start =
            (if vloc_seq - context_size < 0 then 0 else vloc_seq - context_size);
          context_end =
            (if vloc_seq + context_size + 1 > n - 1 then n - 1
             else vloc_seq + context_size + 1);
          var_context_display =
            py_slice sequence context_start vloc_seq @ ''[red]'' @ alt @ ''[/red]''
              @ py_slice sequence (vloc_seq + 1) context_end;
          var_context =
            py_slice sequence context_start vloc_seq @ alt
              @ py_slice sequence (vloc_seq + 1) context_end
      in (var_context, var_context_display))"

text \<open>
  The window as section 4.2 of the specification words it: the slice over
  \<^verbatim>\<open>[pos-window, pos+window+1)\<close>, clipped to the sequence, with the alternate base in
  place of the base at \<^verbatim>\<open>pos\<close>. It is used only to compare with the code.
\<close>

definition context_window_spec :: "string \<Rightarrow> string \<Rightarrow> nat \<Rightarrow> nat \<Rightarrow> string" where
  "context_window_spec sequence alt pos window =
     (let lo = pos - window; hi = min (length sequence) (pos + window + 1)
      in take (pos - lo) (drop lo sequence) @ alt
           @ take (hi - (pos + 1)) (drop (pos + 1) sequence))"

text \<open>
  The classification block of \<^verbatim>\<open>decorate_variants\<close> (the same lines stand in
  \<^verbatim>\<open>src/mpx_assembly/report.py\<close>): two \<^verbatim>\<open>if\<close> statements in sequence, each
  reading one neighbour of the variant position in the reference; the second keeps the
  outcome of the first when its flanking test fails.
\<close>

definition decorate_apobec3 :: "string \<Rightarrow> int \<Rightarrow> string \<Rightarrow> string \<Rightarrow> error + (bool \<times> string)" where
  "decorate_apobec3 sequence pos_seq ref alt =
     (case (if ref = ''C'' \<and> alt = ''T''
            then (case getitem sequence (pos_seq - 1) of
                    Inl e \<Rightarrow> Inl e
                  | Inr b \<Rightarrow>
                      Inr (if capitalize [b] = ''T'' then (True, ''TC>TT'')
                           else (False, ''other'')))
            else Inr (False, ''other'')) of
        Inl e \<Rightarrow> Inl e
      | Inr st \<Rightarrow>
          (if ref = ''G'' \<and> alt = ''A''
           then (case getitem sequence (pos_seq + 1) of
                   Inl e \<Rightarrow> Inl e
                 | Inr b \<Rightarrow> Inr (if capitalize [b] = ''A'' then (True, ''GA>AA'') else st))
           else Inr st))"

text \<open>
  One pass of the loop over the variant rows; a row is read through its
  \<^verbatim>\<open>POS\<close>, \<^verbatim>\<open>REF\<close> and \<^verbatim>\<open>ALT\<close> cells. A row with no position (no variant
  called for the sample) is skipped with empty cells. The result is the row of
  \<^verbatim>\<open>apobec3_data\<close>: flag, pattern and context.
\<close>

definition decorate_row ::
  "string \<Rightarrow> int \<Rightarrow> int option \<times> string \<times> string \<Rightarrow> error + (bool \<times> string \<times> string) option" where
  "decorate_row sequence context_size row =
     (case row of (pos, ref, alt) \<Rightarrow>
        (case pos of
           None \<Rightarrow> Inr None
         | Some p \<Rightarrow>
             (let pos_seq = p - 1 in
              case decorate_apobec3 sequence pos_seq ref alt of
                Inl e \<Rightarrow> Inl e
              | Inr (apobec3, pattern) \<Rightarrow>
                  Inr (Some (apobec3, pattern,
                    if apobec3 then fst (get_context_sequence sequence alt pos_seq context_size)
                    else '''')))))"

fun apobec3_data ::
  "string \<Rightarrow> int \<Rightarrow> (int option \<times> string \<times> string) list
     \<Rightarrow> error + (bool \<times> string \<times> string) option list" where
  "apobec3_data sequence context_size [] = Inr []"
| "apobec3_data sequence context_size (row # rows) =
     (case decorate_row sequence context_size row of
        Inl e \<Rightarrow> Inl e
      | Inr d \<Rightarrow>
          (case apobec3_data sequence context_size rows of
             Inl e \<Rightarrow> Inl e
           | Inr ds \<Rightarrow> Inr (d # ds)))"


section \<open>Masked regions\<close>

text \<open>
  A row of the mask file: the columns \<^verbatim>\<open>start\<close>, \<^verbatim>\<open>end\<close>,
  \<^verbatim>\<open>annotation\<close> and \<^verbatim>\<open>source\<close> that \<^verbatim>\<open>annotate_masked_regions\<close> reads
  (the field for \<^verbatim>\<open>end\<close> carries a prime).
\<close>

record region =
  start :: int
  end' :: int
  annotation :: string
  source :: string

text \<open>\<^verbatim>\<open>int(variant["POS"]) in range(start, end + 1)\<close>\<close>

definition in_mask_range :: "int \<Rightarrow> region \<Rightarrow> bool" where
  "in_mask_range pos r = (start r \<le> pos \<and> pos < end' r + 1)"

text \<open>
  The inner loop over the regions, in file order, on the three variables
  \<^verbatim>\<open>masked\<close>, \<^verbatim>\<open>annotation\<close> and \<^verbatim>\<open>source\<close>; the loop has no
  \<^verbatim>\<open>break\<close>, so every region is tested and a later match assigns again.
\<close>

fun scan_regions ::
  "int \<Rightarrow> region list \<Rightarrow> bool \<times> string option \<times> string option
     \<Rightarrow> bool \<times> string option \<times> string option" where
  "scan_regions pos [] st = st"
| "scan_regions pos (r # regions) st =
     scan_regions pos regions
       (if in_mask_range pos r then (True, Some (annotation r), Some (source r)) else st)"

definition mask_variant ::
  "int option \<Rightarrow> region list \<Rightarrow> bool \<times> string option \<times> string option" where
  "mask_variant pos regions =
     (case pos of
        None \<Rightarrow> (False, None, None)
      | Some p \<Rightarrow> scan_regions p regions (False, None, None))"

text \<open>
  The outer loop: one row \<^verbatim>\<open>[masked, annotation, source]\<close> of
  \<^verbatim>\<open>mask_data\<close> per variant, the variant being read through \<^verbatim>\<open>POS\<close> only.
\<close>

definition annotate_masked_regions ::
  "int option list \<Rightarrow> region list \<Rightarrow> (bool \<times> string option \<times> string option) list" where
  "annotate_masked_regions variants regions = map (\<lambda>pos. mask_variant pos regions) variants"


section \<open>Numbers and text read from files\<close>

text \<open>
  Python's \<^verbatim>\<open>float\<close> values are taken as the rationals they stand for, so that
  \<^verbatim>\<open>/\<close>, \<^verbatim>\<open>*\<close>, \<^verbatim>\<open>-\<close> and the comparisons are exact; the rounding error of
  binary floating point is not part of the model. \<^verbatim>\<open>round(x, ndigits)\<close> rounds to
  the nearest multiple of \<^verbatim>\<open>10 ** -ndigits\<close>, a tie going to the even neighbour.
\<close>

definition round_half_even :: "rat \<Rightarrow> int" where
  "round_half_even x =
     (let f = \<lfloor>x\<rfloor>; d = x - of_int f
      in if d < 1 / 2 then f else if 1 / 2 < d then f + 1 else if even f then f else f + 1)"

definition py_round :: "rat \<Rightarrow> nat \<Rightarrow> rat" where
  "py_round x ndigits = of_int (round_half_even (x * 10 ^ ndigits)) / 10 ^ ndigits"

text \<open>\<^verbatim>\<open>s.split(sep)\<close> for a separator of one character, and \<^verbatim>\<open>s.strip()\<close>.\<close>

fun split_on :: "char \<Rightarrow> string \<Rightarrow> string list" where
  "split_on sep [] = [[]]"
| "split_on sep (c # cs) =
     (if c = sep then [] # split_on sep cs
      else (case split_on sep cs of
              [] \<Rightarrow> [[c]]
            | w # ws \<Rightarrow> (c # w) # ws))"

definition is_space :: "char \<Rightarrow> bool" where
  "is_space c = (c \<in> set [CHR '' '', CHR 0x09, CHR 0x0A, CHR 0x0B, CHR 0x0C, CHR 0x0D])"

definition strip :: "string \<Rightarrow> string" where
  "strip s = rev (dropWhile is_space (rev (dropWhile is_space s)))"

text \<open>
  The builtins \<^verbatim>\<open>int(s)\<close> and \<^verbatim>\<open>float(s)\<close> on a string are arguments
  \<open>to_int\<close> and \<open>to_float\<close> of the functions that call them, \<open>None\<close> standing for
  \<^verbatim>\<open>ValueError\<close>: every general statement below holds for whatever strings the
  builtins accept. The two readers defined here cover plain decimal numerals (an optional
  sign, digits, at most one point) and serve to run the functions on concrete input.
\<close>

definition digit_value :: "char \<Rightarrow> nat option" where
  "digit_value c = map_of (zip ''0123456789'' [0, 1, 2, 3, 4, 5, 6, 7, 8, 9]) c"

fun read_digits :: "nat \<Rightarrow> string \<Rightarrow> nat option" where
  "read_digits acc [] = Some acc"
| "read_digits acc (c # cs) =
     (case digit_value c of
        None \<Rightarrow> None
      | Some d \<Rightarrow> read_digits (10 * acc + d) cs)"

definition unsigned_float :: "string \<Rightarrow> rat option" where
  "unsigned_float s =
     (case split_on CHR ''.'' s of
        [ipart] \<Rightarrow> (if ipart = [] then None else map_option of_nat (read_digits 0 ipart))
      | [ipart, fpart] \<Rightarrow>
          (if ipart = [] \<and> fpart = [] then None
           else (case (read_digits 0 ipart, read_digits 0 fpart) of
                   (Some a, Some b) \<Rightarrow> Some (of_nat a + of_nat b / 10 ^ length fpart)
                 | _ \<Rightarrow> None))
      | _ \<Rightarrow> None)"

definition decimal_float :: "string \<Rightarrow> rat option" where
  "decimal_float s =
     (if s \<noteq> [] \<and> hd s = CHR ''-'' then map_option uminus (unsigned_float (tl s))
      else if s \<noteq> [] \<and> hd s = CHR ''+'' then unsigned_float (tl s)
      else unsigned_float s)"

definition unsigned_int :: "string \<Rightarrow> int option" where
  "unsigned_int s = (if s = [] then None else map_option int (read_digits 0 s))"

definition decimal_int :: "string \<Rightarrow> int option" where
  "decimal_int s =
     (if s \<noteq> [] \<and> hd s = CHR ''-'' then map_option uminus (unsigned_int (tl s))
      else if s \<noteq> [] \<and> hd s = CHR ''+'' then unsigned_int (tl s)
      else unsigned_int s)"


section \<open>Per-sample metrics and the quality control table\<close>

text \<open>
  A path handed to an extractor is identified with what the file holds once parsed;
  \<open>None\<close> is the \<^verbatim>\<open>None\<close> that \<^verbatim>\<open>dict.get\<close> returns for a sample with no such
  file. The read-QC report is a fastp report
  (\<^verbatim>\<open>summary.before_filtering.total_reads\<close>, \<^verbatim>\<open>summary.after_filtering.total_reads\<close>)
  or a nanoq report (\<^verbatim>\<open>reads\<close>, \<^verbatim>\<open>filtered\<close>); an extractor that looks for the keys
  of the other kind raises \<^verbatim>\<open>KeyError\<close>. The host depletion report is the list of
  the \<^verbatim>\<open>depleted\<close> counts under \<^verbatim>\<open>reads\<close>, the coverage file its list of lines,
  and the assembly the \<^verbatim>\<open>(name, sequence)\<close> records of the FASTA file.
\<close>

datatype qc_json = Fastp int int | Nanoq int int

definition get_nanoq_data :: "qc_json option \<Rightarrow> error + (int \<times> int)" where
  "get_nanoq_data file =
     (case file of
        None \<Rightarrow> Inr (0, 0)
      | Some (Nanoq after_filtered filtered) \<Rightarrow> Inr (after_filtered + filtered, after_filtered)
      | Some (Fastp _ _) \<Rightarrow> Inl KeyError)"

definition get_fastp_data :: "qc_json option \<Rightarrow> error + (int \<times> int)" where
  "get_fastp_data file =
     (case file of
        None \<Rightarrow> Inr (0, 0)
      | Some (Fastp all_reads qc_reads) \<Rightarrow> Inr (all_reads, qc_reads)
      | Some (Nanoq _ _) \<Rightarrow> Inl KeyError)"

definition get_host_reads :: "int list option \<Rightarrow> bool \<Rightarrow> bool \<Rightarrow> error + int" where
  "get_host_reads file ont ont_ivar =
     (case file of
        None \<Rightarrow> Inr 0
      | Some depleted \<Rightarrow>
          (case getitem depleted 0 of
             Inl e \<Rightarrow> Inl e
           | Inr forward \<Rightarrow>
               (if \<not> ont \<and> \<not> ont_ivar
                then (case getitem depleted 1 of
                        Inl e \<Rightarrow> Inl e
                      | Inr reverse_depleted \<Rightarrow> Inr (forward + reverse_depleted))
                else Inr forward)))"

text \<open>
  \<^verbatim>\<open>get_samtools_data\<close> has no test for an absent file: \<^verbatim>\<open>file.open()\<close> on
  \<^verbatim>\<open>None\<close> raises \<^verbatim>\<open>AttributeError\<close>.
\<close>

definition get_samtools_data ::
  "(string \<Rightarrow> int option) \<Rightarrow> (string \<Rightarrow> rat option) \<Rightarrow> string list option
     \<Rightarrow> error + (int \<times> rat \<times> rat)" where
  "get_samtools_data to_int to_float file =
     (case file of
        None \<Rightarrow> Inl AttributeError
      | Some lines \<Rightarrow>
          (case getitem lines 1 of
             Inl e \<Rightarrow> Inl e
           | Inr line \<Rightarrow>
               (let content = split_on CHR 0x09 (strip line) in
                case getitem content 3 of
                  Inl e \<Rightarrow> Inl e
                | Inr c3 \<Rightarrow>
                (case to_int c3 of
                  None \<Rightarrow> Inl ValueError
                | Some numreads \<Rightarrow>
                (case getitem content 5 of
                  Inl e \<Rightarrow> Inl e
                | Inr c5 \<Rightarrow>
                (case to_float c5 of
                  None \<Rightarrow> Inl ValueError
                | Some cov \<Rightarrow>
                (case getitem content 6 of
                  Inl e \<Rightarrow> Inl e
                | Inr c6 \<Rightarrow>
                (case to_float c6 of
                  None \<Rightarrow> Inl ValueError
                | Some depth \<Rightarrow> Inr (numreads, py_round cov 4, py_round depth 6)))))))))"

text \<open>
  \<^verbatim>\<open>get_consensus_assembly_data\<close>: the first record of the FASTA file, read in
  upper case; the division by a zero length is the \<^verbatim>\<open>ZeroDivisionError\<close> that the
  \<^verbatim>\<open>except\<close> clause turns into \<^verbatim>\<open>None\<close>.
\<close>

definition get_consensus_assembly_data :: "(string \<times> string) list \<Rightarrow> error + (rat option \<times> nat)" where
  "get_consensus_assembly_data file =
     (case file of
        [] \<Rightarrow> Inl IndexError
      | (header, bases) # _ \<Rightarrow>
          (let sq = map upper_char bases; ncount = count_list sq CHR ''N''
           in Inr (if length sq = 0 then None
                   else Some (py_round (100 - (of_nat ncount / of_nat (length sq)) * 100) 6),
                   ncount)))"


text \<open>
  \<^verbatim>\<open>quality_control_consensus\<close>. The three dictionaries built from the
  \<^verbatim>\<open>coverage\<close>, \<^verbatim>\<open>quality_control\<close> and \<^verbatim>\<open>host_depletion\<close> directories are
  maps from the sample name; \<open>consensus_assemblies\<close> is the list of the consensus
  files found, each with the sample name taken from its file name. \<^verbatim>\<open>combined_files\<close>
  is a dictionary in insertion order. The result is the list of rows of the returned
  data frame; drawing the table is left out.
\<close>

record SampleFiles =
  assembly :: "(string \<times> string) list"
  qc_data :: "qc_json option"
  samtools :: "string list option"
  depletion :: "int list option"

record SampleQC =
  name :: string
  reads :: int
  qc_reads :: int
  human_reads :: int
  aligned_reads :: int
  coverage :: rat
  mean_depth :: rat
  missing_sites :: nat
  completeness :: "rat option"

definition combined_files ::
  "(string \<rightharpoonup> string list) \<Rightarrow> (string \<rightharpoonup> qc_json) \<Rightarrow> (string \<rightharpoonup> int list)
     \<Rightarrow> (string \<times> (string \<times> string) list) list \<Rightarrow> (string \<times> SampleFiles) list" where
  "combined_files coverage_data qc_files depletion_data consensus_assemblies =
     foldl (\<lambda>files (sample, fasta).
              AList.update sample
                \<lparr>assembly = fasta, qc_data = qc_files sample,
                 samtools = coverage_data sample, depletion = depletion_data sample\<rparr>
                files)
       [] consensus_assemblies"

definition sample_qc ::
  "(string \<Rightarrow> int option) \<Rightarrow> (string \<Rightarrow> rat option) \<Rightarrow> bool \<Rightarrow> bool
     \<Rightarrow> string \<Rightarrow> SampleFiles \<Rightarrow> error + SampleQC" where
  "sample_qc to_int to_float ont ont_ivar sample sample_files =
     (case (if ont \<or> ont_ivar then get_nanoq_data (qc_data sample_files)
            else get_fastp_data (qc_data sample_files)) of
        Inl e \<Rightarrow> Inl e
      | Inr (n_all, n_qc) \<Rightarrow>
     (case get_samtools_data to_int to_float (samtools sample_files) of
        Inl e \<Rightarrow> Inl e
      | Inr (n_aligned, cov, depth) \<Rightarrow>
     (case get_consensus_assembly_data (assembly sample_files) of
        Inl e \<Rightarrow> Inl e
      | Inr (pct, missing) \<Rightarrow>
     (case get_host_reads (depletion sample_files) ont ont_ivar of
        Inl e \<Rightarrow> Inl e
      | Inr host \<Rightarrow>
          Inr \<lparr>name = sample, reads = n_all, qc_reads = n_qc, human_reads = host,
               aligned_reads = n_aligned, coverage = cov, mean_depth = depth,
               missing_sites = missing, completeness = pct\<rparr>))))"

fun sample_rows ::
  "(string \<Rightarrow> int option) \<Rightarrow> (string \<Rightarrow> rat option) \<Rightarrow> bool \<Rightarrow> bool
     \<Rightarrow> (string \<times> SampleFiles) list \<Rightarrow> error + SampleQC list" where
  "sample_rows to_int to_float ont ont_ivar [] = Inr []"
| "sample_rows to_int to_float ont ont_ivar ((sample, sample_files) # others) =
     (case sample_qc to_int to_float ont ont_ivar sample sample_files of
        Inl e \<Rightarrow> Inl e
      | Inr qc \<Rightarrow>
          (case sample_rows to_int to_float ont ont_ivar others of
             Inl e \<Rightarrow> Inl e
           | Inr qcs \<Rightarrow> Inr (qc # qcs)))"

definition quality_control_consensus ::
  "(string \<Rightarrow> int option) \<Rightarrow> (string \<Rightarrow> rat option)
     \<Rightarrow> (string \<rightharpoonup> string list) \<Rightarrow> (string \<rightharpoonup> qc_json) \<Rightarrow> (string \<rightharpoonup> int list)
     \<Rightarrow> (string \<times> (string \<times> string) list) list \<Rightarrow> bool \<Rightarrow> bool \<Rightarrow> error + SampleQC list" where
  "quality_control_consensus to_int to_float coverage_data qc_files depletion_data
       consensus_assemblies ont ont_ivar =
     (let files = combined_files coverage_data qc_files depletion_data consensus_assemblies
      in if files = [] then Inl ValueError
         else sample_rows to_int to_float ont ont_ivar files)"


section \<open>Variant tables\<close>

text \<open>
  A data frame is the list of its rows, a row (a pandas \<^verbatim>\<open>Series\<close>) the list of its
  labelled cells in column order; all rows of one frame carry the same labels. A missing
  value is \<^verbatim>\<open>None\<close>, as the readers of the code write it
  (\<^verbatim>\<open>df.loc[0] = [None for _ in df.columns]\<close>) and as the loops test it
  (\<^verbatim>\<open>pos is None\<close>).
\<close>

datatype cell = NoneC | BoolC bool | IntC int | FloatC rat | StrC string

type_synonym series = "(string \<times> cell) list"

text \<open>\<^verbatim>\<open>row[label]\<close>\<close>

definition series_get :: "series \<Rightarrow> string \<Rightarrow> error + cell" where
  "series_get row label = (case map_of row label of None \<Rightarrow> Inl KeyError | Some v \<Rightarrow> Inr v)"

text \<open>
  The value a cell has in a comparison with a number: a Boolean counts as 0 or 1;
  \<^verbatim>\<open>None\<close> and a string do not compare (\<^verbatim>\<open>TypeError\<close>).
\<close>

definition cell_number :: "cell \<Rightarrow> rat option" where
  "cell_number c =
     (case c of
        BoolC b \<Rightarrow> Some (if b then 1 else 0)
      | IntC i \<Rightarrow> Some (of_int i)
      | FloatC x \<Rightarrow> Some x
      | _ \<Rightarrow> None)"


section \<open>The low frequency and depth filter\<close>

text \<open>
  The condition of the inner loop of \<^verbatim>\<open>decorate_variants\<close>,
  \<^verbatim>\<open>variant["ALT_FREQ"] <= float(freq) and variant["ALT_DP"] < int(min_depth)\<close>,
  evaluated from left to right; the right operand of \<^verbatim>\<open>and\<close> is evaluated only
  when the left one holds.
\<close>

definition fails_threshold ::
  "(string \<Rightarrow> rat option) \<Rightarrow> (string \<Rightarrow> int option) \<Rightarrow> string \<Rightarrow> string \<Rightarrow> series
     \<Rightarrow> error + bool" where
  "fails_threshold to_float to_int freq min_depth variant =
     (case series_get variant ''ALT_FREQ'' of
        Inl e \<Rightarrow> Inl e
      | Inr alt_freq \<Rightarrow>
     (case to_float freq of
        None \<Rightarrow> Inl ValueError
      | Some f \<Rightarrow>
     (case cell_number alt_freq of
        None \<Rightarrow> Inl TypeError
      | Some a \<Rightarrow>
          if \<not> a \<le> f then Inr False
          else
     (case series_get variant ''ALT_DP'' of
        Inl e \<Rightarrow> Inl e
      | Inr alt_dp \<Rightarrow>
     (case to_int min_depth of
        None \<Rightarrow> Inl ValueError
      | Some m \<Rightarrow>
     (case cell_number alt_dp of
        None \<Rightarrow> Inl TypeError
      | Some d \<Rightarrow> Inr (d < of_int m)))))))"

text \<open>
  The inner loop: it walks a copy of the table and drops from the table each row for
  which the condition holds. The row labels are unique (the table was given a fresh
  index by \<^verbatim>\<open>reset_index\<close>), so \<^verbatim>\<open>drop(idx)\<close> removes that one row.
\<close>

fun drop_failing ::
  "(string \<Rightarrow> rat option) \<Rightarrow> (string \<Rightarrow> int option) \<Rightarrow> string \<Rightarrow> string \<Rightarrow> series list
     \<Rightarrow> error + series list" where
  "drop_failing to_float to_int freq min_depth [] = Inr []"
| "drop_failing to_float to_int freq min_depth (variant # var_cds) =
     (case fails_threshold to_float to_int freq min_depth variant of
        Inl e \<Rightarrow> Inl e
      | Inr failing \<Rightarrow>
          (case drop_failing to_float to_int freq min_depth var_cds of
             Inl e \<Rightarrow> Inl e
           | Inr kept \<Rightarrow> Inr (if failing then kept else variant # kept)))"

text \<open>
  The outer loop over the settings in the order given; \<^verbatim>\<open>for (freq, min_depth) in ...\<close>
  unpacks each setting, which raises \<^verbatim>\<open>ValueError\<close> unless it has exactly two
  parts.
\<close>

fun apply_settings ::
  "(string \<Rightarrow> rat option) \<Rightarrow> (string \<Rightarrow> int option) \<Rightarrow> string list list \<Rightarrow> series list
     \<Rightarrow> error + series list" where
  "apply_settings to_float to_int [] variants_cds = Inr variants_cds"
| "apply_settings to_float to_int (setting # settings) variants_cds =
     (case setting of
        [freq, min_depth] \<Rightarrow>
          (case drop_failing to_float to_int freq min_depth variants_cds of
             Inl e \<Rightarrow> Inl e
           | Inr kept \<Rightarrow> apply_settings to_float to_int settings kept)
      | _ \<Rightarrow> Inl ValueError)"

text \<open>
  \<^verbatim>\<open>sorted(settings, key=lambda x: x[0])\<close> on the settings split from
  \<^verbatim>\<open>low_freq_depth\<close>: the key is the first part of a setting, a string, so the order
  is that of strings (character by character, by code); the sort is stable. A split
  never returns an empty list, so \<^verbatim>\<open>x[0]\<close> exists.
\<close>

definition sorted_settings :: "string \<Rightarrow> string list list" where
  "sorted_settings low_freq_depth =
     sort_key hd (map (split_on CHR '':'') (split_on CHR ''-'' low_freq_depth))"

text \<open>The block under \<^verbatim>\<open>if low_freq_depth:\<close>; \<open>None\<close> and the empty string skip it.\<close>

definition low_freq_depth_filter ::
  "(string \<Rightarrow> rat option) \<Rightarrow> (string \<Rightarrow> int option) \<Rightarrow> string option \<Rightarrow> series list
     \<Rightarrow> error + series list" where
  "low_freq_depth_filter to_float to_int low_freq_depth variants_cds =
     (case low_freq_depth of
        None \<Rightarrow> Inr variants_cds
      | Some s \<Rightarrow>
          if s = [] then Inr variants_cds
          else apply_settings to_float to_int (sorted_settings s) variants_cds)"


text \<open>
  Two notions used to state properties of the loops. \<open>setting_verdict\<close> is what one
  pass of the outer loop computes for one row: the unpacking of the setting, then the
  condition. A setting is \<open>readable\<close> when it is a pair whose parts the two builtins
  accept, that is when it denotes a frequency and a depth.
\<close>

definition setting_verdict ::
  "(string \<Rightarrow> rat option) \<Rightarrow> (string \<Rightarrow> int option) \<Rightarrow> string list \<Rightarrow> series
     \<Rightarrow> error + bool" where
  "setting_verdict to_float to_int setting variant =
     (case setting of
        [freq, min_depth] \<Rightarrow> fails_threshold to_float to_int freq min_depth variant
      | _ \<Rightarrow> Inl ValueError)"

definition readable ::
  "(string \<Rightarrow> rat option) \<Rightarrow> (string \<Rightarrow> int option) \<Rightarrow> string list \<Rightarrow> bool" where
  "readable to_float to_int setting =
     (case setting of
        [freq, min_depth] \<Rightarrow> to_float freq \<noteq> None \<and> to_int min_depth \<noteq> None
      | _ \<Rightarrow> False)"


section \<open>Population summary of the variants\<close>

text \<open>
  \<^verbatim>\<open>rep[label] = value\<close> on a row replaces the cell of that label or, when the row
  has no such label, appends a cell; \<^verbatim>\<open>rep.drop(labels=...)\<close> removes the cells of the
  labels and raises \<^verbatim>\<open>KeyError\<close> when one of the labels is not in the row.
\<close>

definition series_set :: "series \<Rightarrow> string \<Rightarrow> cell \<Rightarrow> series" where
  "series_set row label v = AList.update label v row"

definition series_drop :: "string list \<Rightarrow> series \<Rightarrow> error + series" where
  "series_drop labels row =
     (if list_all (\<lambda>l. map_of row l \<noteq> None) labels
      then Inr (filter (\<lambda>(l, v). l \<notin> set labels) row)
      else Inl KeyError)"

definition per_sample_labels :: "string list" where
  "per_sample_labels =
     [''REF_DP'', ''REF_RV'', ''REF_QUAL'', ''ALT_DP'', ''ALT_RV'', ''ALT_QUAL'', ''ALT_FREQ'',
      ''TOTAL_DP'', ''PASS'', ''PVAL'', ''SAMPLE'']"

text \<open>
  The key of a row under \<^verbatim>\<open>groupby(["POS", "REF", "ALT"])\<close>: the position is an
  integer cell, the two alleles are string cells. A row with \<^verbatim>\<open>None\<close> in a key column
  belongs to no group (\<^verbatim>\<open>groupby\<close> leaves null keys out); key cells of another type
  are not part of the model and are treated alike.
\<close>

definition group_key :: "series \<Rightarrow> (int \<times> string \<times> string) option" where
  "group_key row =
     (case map_of row ''POS'' of
        Some (IntC p) \<Rightarrow>
          (case map_of row ''REF'' of
             Some (StrC r) \<Rightarrow>
               (case map_of row ''ALT'' of
                  Some (StrC a) \<Rightarrow> Some (p, r, a)
                | _ \<Rightarrow> None)
           | _ \<Rightarrow> None)
      | _ \<Rightarrow> None)"

text \<open>
  The body of the loop over the groups: \<open>data\<close> is the list of the rows of one group,
  in table order, and \<open>samples\<close> the number of distinct samples of the table.
\<close>

definition group_row :: "bool \<Rightarrow> nat \<Rightarrow> series list \<Rightarrow> error + series" where
  "group_row ont_artic samples data =
     (case data of
        [] \<Rightarrow> Inl IndexError
      | first # _ \<Rightarrow>
          (case (if \<not> ont_artic then series_drop per_sample_labels first else Inr first) of
             Inl e \<Rightarrow> Inl e
           | Inr rep \<Rightarrow>
               Inr (series_set
                      (series_set rep ''POP_COUNT'' (IntC (int (length data))))
                      ''POP_FREQ'' (FloatC (of_nat (length data) / of_nat samples)))))"

fun group_rows :: "bool \<Rightarrow> nat \<Rightarrow> series list list \<Rightarrow> error + series list" where
  "group_rows ont_artic samples [] = Inr []"
| "group_rows ont_artic samples (data # groups) =
     (case group_row ont_artic samples data of
        Inl e \<Rightarrow> Inl e
      | Inr rep \<Rightarrow>
          (case group_rows ont_artic samples groups of
             Inl e \<Rightarrow> Inl e
           | Inr var_data \<Rightarrow> Inr (rep # var_data)))"

text \<open>
  \<^verbatim>\<open>list.insert(i, x)\<close>, and the new column order: the columns without the last
  two, with \<^verbatim>\<open>POP_COUNT\<close> and \<^verbatim>\<open>POP_FREQ\<close> inserted at the indices 1 and 2.
  \<^verbatim>\<open>reindex(columns=...)\<close> lays every row out in that order, a column the row does not
  have being filled with a missing value.
\<close>

definition list_insert :: "nat \<Rightarrow> 'a \<Rightarrow> 'a list \<Rightarrow> 'a list" where
  "list_insert i x xs = take i xs @ x # drop i xs"

definition pop_columns :: "string list \<Rightarrow> string list" where
  "pop_columns columns =
     list_insert 2 ''POP_FREQ'' (list_insert 1 ''POP_COUNT'' (butlast (butlast columns)))"

definition reindex :: "string list \<Rightarrow> series \<Rightarrow> series" where
  "reindex columns row =
     map (\<lambda>l. (l, case map_of row l of None \<Rightarrow> NoneC | Some v \<Rightarrow> v)) columns"

text \<open>
  \<^verbatim>\<open>get_variant_pop_summary(variants, ont_artic)\<close>. The columns \<^verbatim>\<open>SAMPLE\<close>,
  \<^verbatim>\<open>POS\<close>, \<^verbatim>\<open>REF\<close> and \<^verbatim>\<open>ALT\<close> are looked up in the frame
  (\<^verbatim>\<open>KeyError\<close> when one is absent); the groups come in ascending order of the key;
  the columns of the frame built from the summary rows are the labels of these rows.
\<close>

definition get_variant_pop_summary :: "series list \<Rightarrow> bool \<Rightarrow> error + series list" where
  "get_variant_pop_summary variants ont_artic =
     (if \<not> list_all (\<lambda>row. list_all (\<lambda>l. map_of row l \<noteq> None)
                              [''SAMPLE'', ''POS'', ''REF'', ''ALT'']) variants
      then Inl KeyError
      else
        (let samples = length (remdups (map (\<lambda>row. map_of row ''SAMPLE'') variants));
             keys = sort (remdups (List.map_filter group_key variants));
             groups = map (\<lambda>k. filter (\<lambda>row. group_key row = Some k) variants) keys
         in case group_rows ont_artic samples groups of
              Inl e \<Rightarrow> Inl e
            | Inr var_data \<Rightarrow>
                Inr (case var_data of
                       [] \<Rightarrow> []
                     | first # _ \<Rightarrow> map (reindex (pop_columns (map fst first))) var_data)))"


text \<open>
  Notions used in the proofs about the summary: the labels and the cells of a row that
  are left after the drop, and the summary row of a group before the columns are put
  in their final order.
\<close>

definition kept_columns :: "bool \<Rightarrow> string list \<Rightarrow> string list" where
  "kept_columns ont_artic columns =
     (if ont_artic then columns else filter (\<lambda>l. l \<notin> set per_sample_labels) columns)"

definition kept_cells :: "bool \<Rightarrow> series \<Rightarrow> series" where
  "kept_cells ont_artic row =
     (if ont_artic then row else filter (\<lambda>(l, v). l \<notin> set per_sample_labels) row)"

definition group_cells :: "bool \<Rightarrow> nat \<Rightarrow> series list \<Rightarrow> series" where
  "group_cells ont_artic samples data =
     kept_cells ont_artic (hd data)
       @ [(''POP_COUNT'', IntC (int (length data))),
          (''POP_FREQ'', FloatC (of_nat (length data) / of_nat samples))]"

text \<open>
  Two small tables on which the summary is run below: an iVar table of three samples
  (the third with no variant called), and a Medaka table of two samples.
\<close>

definition ivar_columns :: "string list" where
  "ivar_columns =
     [''REGION'', ''POS'', ''REF'', ''ALT'', ''REF_DP'', ''REF_RV'', ''REF_QUAL'', ''ALT_DP'',
      ''ALT_RV'', ''ALT_QUAL'', ''ALT_FREQ'', ''TOTAL_DP'', ''PVAL'', ''PASS'', ''SAMPLE'',
      ''APOBEC3'']"

definition ivar_row :: "cell list \<Rightarrow> series" where
  "ivar_row cells = zip ivar_columns cells"

definition ivar_example :: "series list" where
  "ivar_example =
     [ivar_row [StrC ''ref'', IntC 20, StrC ''G'', StrC ''A'', IntC 1, IntC 1, IntC 30, IntC 200,
                IntC 90, IntC 35, FloatC (9 / 10), IntC 220, FloatC 0, BoolC True, StrC ''s1'',
                BoolC True],
      ivar_row [StrC ''ref'', IntC 10, StrC ''C'', StrC ''T'', IntC 2, IntC 1, IntC 31, IntC 150,
                IntC 70, IntC 36, FloatC (7 / 10), IntC 210, FloatC 0, BoolC True, StrC ''s1'',
                BoolC False],
      ivar_row [StrC ''ref'', IntC 20, StrC ''G'', StrC ''A'', IntC 3, IntC 1, IntC 32, IntC 180,
                IntC 80, IntC 37, FloatC (8 / 10), IntC 230, FloatC 0, BoolC True, StrC ''s2'',
                BoolC True],
      ivar_row [StrC ''ref'', NoneC, NoneC, NoneC, NoneC, NoneC, NoneC, NoneC,
                NoneC, NoneC, NoneC, NoneC, NoneC, NoneC, StrC ''s3'',
                NoneC]]"

definition medaka_example :: "series list" where
  "medaka_example =
     [[(''CHROM'', StrC ''ref''), (''POS'', IntC 10), (''REF'', StrC ''C''), (''ALT'', StrC ''T''),
       (''QUAL'', FloatC 45), (''FILTER'', NoneC), (''SAMPLE'', StrC ''s1'')],
      [(''CHROM'', StrC ''ref''), (''POS'', IntC 10), (''REF'', StrC ''C''), (''ALT'', StrC ''T''),
       (''QUAL'', FloatC 50), (''FILTER'', NoneC), (''SAMPLE'', StrC ''s2'')]]"


section \<open>Properties of the decoration\<close>

lemma upper_char_T: "upper_char c = CHR ''T'' \<longleftrightarrow> c = CHR ''T'' \<or> c = CHR ''t''"
  by (auto simp: upper_char_def split: if_splits)

lemma upper_char_A: "upper_char c = CHR ''A'' \<longleftrightarrow> c = CHR ''A'' \<or> c = CHR ''a''"
  by (auto simp: upper_char_def split: if_splits)

lemma getitem_inside:
  "0 \<le> i \<Longrightarrow> i < int (length xs) \<Longrightarrow> getitem xs i = Inr (xs ! nat i)"
  by (simp add: getitem_def)

lemma getitem_past_end: "getitem xs (int (length xs)) = Inl IndexError"
  by (simp add: getitem_def)

text \<open>
  Claim C2. At a position with a neighbour on both sides, the classification is
  \<^verbatim>\<open>TC>TT\<close> with the flag set exactly for a C to T change preceded by T or t in the
  reference, \<^verbatim>\<open>GA>AA\<close> with the flag set exactly for a G to A change followed by A or
  a, and \<^verbatim>\<open>other\<close> with the flag clear in every other case; the pattern is one of
  the three tags.
\<close>

theorem apobec3_classification:
  assumes "0 < p" and "p + 1 < int (length sequence)"
  shows "decorate_apobec3 sequence p ref alt =
           Inr (if ref = ''C'' \<and> alt = ''T'' \<and> sequence ! nat (p - 1) \<in> {CHR ''T'', CHR ''t''}
                then (True, ''TC>TT'')
                else if ref = ''G'' \<and> alt = ''A'' \<and> sequence ! nat (p + 1) \<in> {CHR ''A'', CHR ''a''}
                then (True, ''GA>AA'')
                else (False, ''other''))
         \<and> (\<exists>flag pattern. decorate_apobec3 sequence p ref alt = Inr (flag, pattern)
               \<and> pattern \<in> {''TC>TT'', ''GA>AA'', ''other''}
               \<and> (flag \<longleftrightarrow> pattern \<noteq> ''other''))"
proof -
  have before: "getitem sequence (p - 1) = Inr (sequence ! nat (p - 1))"
    using assms by (intro getitem_inside) auto
  have after: "getitem sequence (p + 1) = Inr (sequence ! nat (p + 1))"
    using assms by (intro getitem_inside) auto
  have eq: "decorate_apobec3 sequence p ref alt =
           Inr (if ref = ''C'' \<and> alt = ''T'' \<and> sequence ! nat (p - 1) \<in> {CHR ''T'', CHR ''t''}
                then (True, ''TC>TT'')
                else if ref = ''G'' \<and> alt = ''A'' \<and> sequence ! nat (p + 1) \<in> {CHR ''A'', CHR ''a''}
                then (True, ''GA>AA'')
                else (False, ''other''))"
    by (simp add: decorate_apobec3_def before after capitalize_def upper_char_T upper_char_A)
  have "\<exists>flag pattern. decorate_apobec3 sequence p ref alt = Inr (flag, pattern)
           \<and> pattern \<in> {''TC>TT'', ''GA>AA'', ''other''}
           \<and> (flag \<longleftrightarrow> pattern \<noteq> ''other'')"
    unfolding eq by simp
  with eq show ?thesis by blast
qed

theorem apobec3_classification_witness:
  "decorate_apobec3 ''ATCGA'' 2 ''C'' ''T'' = Inr (True, ''TC>TT'')
   \<and> decorate_apobec3 ''ATCGA'' 3 ''G'' ''A'' = Inr (True, ''GA>AA'')
   \<and> decorate_apobec3 ''ATCGA'' 2 ''A'' ''G'' = Inr (False, ''other'')"
  using apobec3_classification [of 2 "''ATCGA''" "''C''" "''T''"]
    apobec3_classification [of 3 "''ATCGA''" "''G''" "''A''"]
    apobec3_classification [of 2 "''ATCGA''" "''A''" "''G''"]
  by simp

text \<open>
  The context in terms of \<open>take\<close> and \<open>drop\<close>. Where the window ends before
  the last base the result is the window of section 4.2; where the window reaches the end
  of the sequence and the variant is not the last base, the result is one base shorter.
\<close>

lemma context_sequence_parts:
  "fst (get_context_sequence s alt (int p) (int k)) =
     take (p - (p - k)) (drop (p - k) s) @ alt
       @ take (min (length s - 1) (p + k + 1) - (p + 1)) (drop (p + 1) s)"
proof -
  have start: "(if int p - int k < 0 then 0 else int p - int k) = int (p - k)"
    by auto
  have stop: "(if int p + int k + 1 > int (length s) - 1 then int (length s) - 1
               else int p + int k + 1) = int (min (length s - 1) (p + k + 1)) \<or> s = []"
    by (cases s) auto
  show ?thesis
  proof (cases "s = []")
    case True
    then show ?thesis
      by (simp add: get_context_sequence_def py_slice_def slice_bound_def Let_def)
  next
    case False
    with stop have stop': "(if int p + int k + 1 > int (length s) - 1 then int (length s) - 1
               else int p + int k + 1) = int (min (length s - 1) (p + k + 1))" by simp
    have left: "py_slice s (int (p - k)) (int p) = take (p - (p - k)) (drop (p - k) s)"
      by (auto simp: py_slice_def slice_bound_def Let_def min_def)
    have right: "py_slice s (int p + 1) (int (min (length s - 1) (p + k + 1)))
                   = take (min (length s - 1) (p + k + 1) - (p + 1)) (drop (p + 1) s)"
      by (auto simp: py_slice_def slice_bound_def Let_def min_def nat_add_distrib)
    show ?thesis
      unfolding get_context_sequence_def Let_def start stop' fst_conv left right ..
  qed
qed

lemma context_sequence_interior:
  assumes "p + k + 1 \<le> length s - 1"
  shows "fst (get_context_sequence s alt (int p) (int k)) = context_window_spec s alt p k"
  using assms by (simp add: context_sequence_parts context_window_spec_def Let_def min_def)

lemma context_sequence_right_edge:
  assumes "p + 1 < length s" and "length s \<le> p + k + 1"
  shows "length (fst (get_context_sequence s alt (int p) (int k))) + 1
           = length (context_window_spec s alt p k)"
proof -
  have code_end: "min (length s - 1) (p + k + 1) = length s - 1"
    and spec_end: "min (length s) (p + k + 1) = length s"
    using assms by simp_all
  have "length (take (length s - 1 - (p + 1)) (drop (p + 1) s)) + 1
          = length (take (length s - (p + 1)) (drop (p + 1) s))"
    using assms by simp
  then show ?thesis
    unfolding context_sequence_parts context_window_spec_def Let_def code_end spec_end
    by simp
qed

text \<open>
  Claim C3. At the sequence \<^verbatim>\<open>ACGTA\<close>, position 2 and window 2 the interval
  \<^verbatim>\<open>[0, 5)\<close> lies inside the sequence, and the slice with the alternate base
  substituted is \<^verbatim>\<open>ACTTA\<close>; the code ends the right half at
  \<^verbatim>\<open>len(sequence) - 1\<close> and returns \<^verbatim>\<open>ACTT\<close>.
\<close>

theorem context_sequence_loses_last_base:
  "fst (get_context_sequence ''ACGTA'' ''T'' 2 2) = ''ACTT''
   \<and> context_window_spec ''ACGTA'' ''T'' 2 2 = ''ACTTA''"
  by (simp add: get_context_sequence_def context_window_spec_def py_slice_def slice_bound_def)

text \<open>
  Claim C10. A G to A row at the last base of the reference (1-based position equal
  to the length, 0-based index \<^verbatim>\<open>len - 1\<close>) reads the reference one index past the
  end: the classification raises \<^verbatim>\<open>IndexError\<close>, and so does the loop over any
  table that holds such a row.
\<close>

theorem apobec3_last_base_index_error:
  "decorate_apobec3 sequence (int (length sequence) - 1) ''G'' ''A'' = Inl IndexError
   \<and> ((Some (int (length sequence)), ''G'', ''A'') \<in> set rows
        \<longrightarrow> (\<exists>e. apobec3_data sequence context_size rows = Inl e))"
proof -
  have last: "decorate_apobec3 sequence (int (length sequence) - 1) ''G'' ''A'' = Inl IndexError"
    by (simp add: decorate_apobec3_def getitem_past_end)
  have row: "decorate_row sequence context_size (Some (int (length sequence)), ''G'', ''A'')
               = Inl IndexError"
    by (simp add: decorate_row_def last)
  have "(Some (int (length sequence)), ''G'', ''A'') \<in> set rows
     \<Longrightarrow> \<exists>e. apobec3_data sequence context_size rows = Inl e"
    by (induction rows) (auto simp: row split: sum.splits)
  with last show ?thesis by blast
qed

theorem apobec3_last_base_index_error_witness:
  "decorate_apobec3 ''ACGTG'' 4 ''G'' ''A'' = Inl IndexError
   \<and> (\<exists>e. apobec3_data ''ACGTG'' 5 [(Some 2, ''C'', ''T''), (Some 5, ''G'', ''A'')] = Inl e)"
  using apobec3_last_base_index_error
    [of "''ACGTG''" "[(Some 2, ''C'', ''T''), (Some 5, ''G'', ''A'')]" 5]
  by simp

section \<open>Properties of the mask annotation\<close>

lemma scan_regions_append:
  "scan_regions p (xs @ ys) st = scan_regions p ys (scan_regions p xs st)"
  by (induction xs arbitrary: st) simp_all

lemma scan_regions_no_match:
  "\<forall>r \<in> set regions. \<not> in_mask_range p r \<Longrightarrow> scan_regions p regions st = st"
  by (induction regions arbitrary: st) simp_all

lemma scan_regions_flag:
  "fst (scan_regions p regions st) \<longleftrightarrow> fst st \<or> (\<exists>r \<in> set regions. in_mask_range p r)"
  by (induction regions arbitrary: st) auto

text \<open>
  Claim C4, as amended. The scan never stops early: when several regions hold the
  position, the annotation and source recorded are those of the last such region in
  file order, that is of the region after which no region holds the position.
\<close>

theorem mask_last_match_wins:
  assumes "in_mask_range p r" and "\<forall>later \<in> set rest. \<not> in_mask_range p later"
  shows "mask_variant (Some p) (earlier @ r # rest) = (True, Some (annotation r), Some (source r))"
  using assms by (simp add: mask_variant_def scan_regions_append scan_regions_no_match)

theorem mask_last_match_wins_witness:
  "mask_variant (Some 7)
     [\<lparr>start = 1, end' = 10, annotation = ''ITR'', source = ''a''\<rparr>,
      \<lparr>start = 5, end' = 15, annotation = ''repeat'', source = ''b''\<rparr>,
      \<lparr>start = 20, end' = 30, annotation = ''homopolymer'', source = ''c''\<rparr>]
   = (True, Some ''repeat'', Some ''b'')"
  using mask_last_match_wins
    [of 7 "\<lparr>start = 5, end' = 15, annotation = ''repeat'', source = ''b''\<rparr>"
        "[\<lparr>start = 20, end' = 30, annotation = ''homopolymer'', source = ''c''\<rparr>]"
        "[\<lparr>start = 1, end' = 10, annotation = ''ITR'', source = ''a''\<rparr>]"]
  by (simp add: in_mask_range_def)

text \<open>
  Claim C4 as stated fails: position 7 lies in both regions of the list below, the
  first in file order is the one annotated \<^verbatim>\<open>ITR\<close>, and the variant is recorded
  with the annotation and source of the second.
\<close>

theorem mask_first_match_counterexample:
  "in_mask_range 7 \<lparr>start = 1, end' = 10, annotation = ''ITR'', source = ''a''\<rparr>
   \<and> in_mask_range 7 \<lparr>start = 5, end' = 15, annotation = ''repeat'', source = ''b''\<rparr>
   \<and> mask_variant (Some 7)
        [\<lparr>start = 1, end' = 10, annotation = ''ITR'', source = ''a''\<rparr>,
         \<lparr>start = 5, end' = 15, annotation = ''repeat'', source = ''b''\<rparr>]
       = (True, Some ''repeat'', Some ''b'')
   \<and> mask_variant (Some 7)
        [\<lparr>start = 1, end' = 10, annotation = ''ITR'', source = ''a''\<rparr>,
         \<lparr>start = 5, end' = 15, annotation = ''repeat'', source = ''b''\<rparr>]
       \<noteq> (True, Some ''ITR'', Some ''a'')"
  by (simp add: mask_variant_def in_mask_range_def)

text \<open>
  Claim C5. The membership test is \<^verbatim>\<open>start \<le> POS \<le> end\<close>. For a region of a mask
  list whose bounds are in order, a variant at \<^verbatim>\<open>start\<close> and a variant at
  \<^verbatim>\<open>end\<close> are marked masked; the position \<^verbatim>\<open>end + 1\<close> is not in the region, and
  with no other region in the list the variant there is left unmasked.
\<close>

theorem mask_bounds_inclusive:
  "(in_mask_range p r \<longleftrightarrow> start r \<le> p \<and> p \<le> end' r)
   \<and> (r \<in> set regions \<and> start r \<le> end' r
        \<longrightarrow> fst (mask_variant (Some (start r)) regions) \<and> fst (mask_variant (Some (end' r)) regions))
   \<and> \<not> in_mask_range (end' r + 1) r
   \<and> mask_variant (Some (end' r + 1)) [r] = (False, None, None)"
proof -
  have test: "in_mask_range q r \<longleftrightarrow> start r \<le> q \<and> q \<le> end' r" for q
    by (auto simp: in_mask_range_def)
  have marked: "fst (mask_variant (Some q) regions)" if "r \<in> set regions" and "in_mask_range q r" for q
    using that by (auto simp: mask_variant_def scan_regions_flag)
  have past: "\<not> in_mask_range (end' r + 1) r"
    by (simp add: test)
  then have "mask_variant (Some (end' r + 1)) [r] = (False, None, None)"
    by (simp add: mask_variant_def)
  with test marked past show ?thesis by blast
qed

theorem mask_bounds_inclusive_witness:
  "fst (mask_variant (Some 100) [\<lparr>start = 100, end' = 200, annotation = ''ITR'', source = ''a''\<rparr>])
   \<and> fst (mask_variant (Some 200) [\<lparr>start = 100, end' = 200, annotation = ''ITR'', source = ''a''\<rparr>])
   \<and> mask_variant (Some 201) [\<lparr>start = 100, end' = 200, annotation = ''ITR'', source = ''a''\<rparr>]
       = (False, None, None)"
  using mask_bounds_inclusive
    [of 100 "\<lparr>start = 100, end' = 200, annotation = ''ITR'', source = ''a''\<rparr>"
        "[\<lparr>start = 100, end' = 200, annotation = ''ITR'', source = ''a''\<rparr>]"]
  by simp


section \<open>Properties of the quality control table\<close>







lemma update_set_subset: "set (AList.update k v al) \<subseteq> insert (k, v) (set al)"
  by (induction al) auto

lemma combined_files_invariant:
  assumes "\<forall>(k, sf) \<in> set acc. samtools sf = coverage_data k"
  shows "\<forall>(k, sf) \<in> set (foldl (\<lambda>files (sample, fasta).
              AList.update sample
                \<lparr>assembly = fasta, qc_data = qc_files sample,
                 samtools = coverage_data sample, depletion = depletion_data sample\<rparr>
                files) acc consensus_assemblies). samtools sf = coverage_data k"
  using assms
proof (induction consensus_assemblies arbitrary: acc)
  case Nil
  then show ?case by simp
next
  case (Cons a as)
  obtain sample fasta where a: "a = (sample, fasta)" by (cases a)
  show ?case
    unfolding a foldl_Cons prod.case
  proof (rule Cons.IH)
    show "\<forall>(k, sf) \<in> set (AList.update sample
                \<lparr>assembly = fasta, qc_data = qc_files sample,
                 samtools = coverage_data sample, depletion = depletion_data sample\<rparr> acc).
            samtools sf = coverage_data k"
      using Cons.prems update_set_subset by fastforce
  qed
qed

lemma combined_files_keys:
  "fst ` set (foldl (\<lambda>files (sample, fasta).
              AList.update sample
                \<lparr>assembly = fasta, qc_data = qc_files sample,
                 samtools = coverage_data sample, depletion = depletion_data sample\<rparr>
                files) acc consensus_assemblies)
   = fst ` set acc \<union> fst ` set consensus_assemblies"
proof (induction consensus_assemblies arbitrary: acc)
  case Nil
  then show ?case by simp
next
  case (Cons a as)
  obtain sample fasta where a: "a = (sample, fasta)" by (cases a)
  show ?case
    unfolding a foldl_Cons prod.case Cons.IH dom_update by auto
qed

lemma sample_qc_without_coverage:
  "samtools sf = None \<Longrightarrow> \<exists>e. sample_qc to_int to_float ont ont_ivar sample sf = Inl e"
  by (auto simp: sample_qc_def get_samtools_data_def split: sum.splits prod.splits)

lemma sample_rows_abort:
  "(sample, sf) \<in> set files \<Longrightarrow> samtools sf = None
     \<Longrightarrow> \<exists>e. sample_rows to_int to_float ont ont_ivar files = Inl e"
proof (induction files)
  case Nil
  then show ?case by simp
next
  case (Cons a files)
  obtain k v where a: "a = (k, v)" by (cases a)
  show ?case
  proof (cases "sample_qc to_int to_float ont ont_ivar k v")
    case (Inl e)
    then show ?thesis by (simp add: a)
  next
    case (Inr qc)
    with Cons.prems a sample_qc_without_coverage [of v to_int to_float ont ont_ivar k]
    have "(sample, sf) \<in> set files" by auto
    from Cons.IH [OF this Cons.prems(2)] show ?thesis
      by (auto simp: a Inr)
  qed
qed

lemma quality_control_abort:
  assumes "(sample, fasta) \<in> set consensus_assemblies" and "coverage_data sample = None"
  shows "\<exists>e. quality_control_consensus to_int to_float coverage_data qc_files depletion_data
            consensus_assemblies ont ont_ivar = Inl e"
proof -
  let ?files = "combined_files coverage_data qc_files depletion_data consensus_assemblies"
  have "sample \<in> fst ` set ?files"
    using assms(1) unfolding combined_files_def combined_files_keys by force
  then obtain sf where sf: "(sample, sf) \<in> set ?files" by auto
  have "\<forall>(k, sf) \<in> set ?files. samtools sf = coverage_data k"
    unfolding combined_files_def by (rule combined_files_invariant) simp
  with sf assms(2) have "samtools sf = None" by auto
  from sample_rows_abort [OF sf this] show ?thesis
    by (auto simp: quality_control_consensus_def Let_def)
qed

text \<open>
  Claim C8. The extractors of the read-QC report and of the host depletion report
  return zeros for an absent file; the extractor of the coverage file raises. For a
  sample with a consensus assembly, a read-QC report and a depletion report but no
  coverage file, building the table ends in \<^verbatim>\<open>AttributeError\<close>.
\<close>

theorem missing_coverage_file_aborts:
  "get_fastp_data None = Inr (0, 0)
   \<and> get_nanoq_data None = Inr (0, 0)
   \<and> get_host_reads None ont ont_ivar = Inr 0
   \<and> get_samtools_data to_int to_float None = Inl AttributeError
   \<and> quality_control_consensus to_int to_float Map.empty [''s1'' \<mapsto> Fastp 100 90]
        [''s1'' \<mapsto> [5, 6]] [(''s1'', [(''s1'', ''ACGT'')])] False False = Inl AttributeError"
  by (simp add: quality_control_consensus_def combined_files_def sample_qc_def get_fastp_data_def
      get_nanoq_data_def get_host_reads_def get_samtools_data_def)


section \<open>Properties of the low frequency and depth filter\<close>

lemma fails_threshold_numeric:
  assumes "map_of variant ''ALT_FREQ'' = Some (FloatC a)"
    and "map_of variant ''ALT_DP'' = Some (IntC d)"
    and "to_float freq = Some f" and "to_int min_depth = Some m"
  shows "fails_threshold to_float to_int freq min_depth variant = Inr (a \<le> f \<and> d < m)"
  using assms by (simp add: fails_threshold_def series_get_def cell_number_def)

lemma drop_failing_result:
  "drop_failing tf ti f m rows = Inr kept
     \<Longrightarrow> kept = filter (\<lambda>v. fails_threshold tf ti f m v = Inr False) rows"
  by (induction rows arbitrary: kept) (auto split: sum.splits if_splits)

lemma drop_failing_returns:
  "(\<exists>kept. drop_failing tf ti f m rows = Inr kept)
     \<longleftrightarrow> (\<forall>v \<in> set rows. \<exists>b. fails_threshold tf ti f m v = Inr b)"
  by (induction rows) (auto split: sum.splits if_splits)

lemma apply_settings_result:
  "apply_settings tf ti settings rows = Inr kept
     \<Longrightarrow> kept = filter (\<lambda>v. \<forall>s \<in> set settings. setting_verdict tf ti s v = Inr False) rows"
proof (induction settings arbitrary: rows)
  case Nil
  then show ?case by simp
next
  case (Cons s settings)
  from Cons.prems obtain f m where s: "s = [f, m]"
    by (auto split: list.splits)
  from Cons.prems s obtain mid where
    mid: "drop_failing tf ti f m rows = Inr mid" and
    rest: "apply_settings tf ti settings mid = Inr kept"
    by (auto split: sum.splits)
  have "mid = filter (\<lambda>v. fails_threshold tf ti f m v = Inr False) rows"
    using mid by (rule drop_failing_result)
  moreover have "kept = filter (\<lambda>v. \<forall>s \<in> set settings. setting_verdict tf ti s v = Inr False) mid"
    using rest by (rule Cons.IH)
  ultimately show ?case
    by (auto simp: s setting_verdict_def intro: filter_cong)
qed

lemma apply_settings_same_table:
  assumes "set settings' = set settings"
    and "apply_settings tf ti settings rows = Inr kept"
    and "apply_settings tf ti settings' rows = Inr kept'"
  shows "kept' = kept"
  using apply_settings_result [OF assms(2)] apply_settings_result [OF assms(3)] assms(1)
  by simp

lemma fails_threshold_True_cells:
  assumes "fails_threshold tf ti f m v = Inr True"
  shows "\<exists>c a d x. series_get v ''ALT_FREQ'' = Inr c \<and> cell_number c = Some a
           \<and> series_get v ''ALT_DP'' = Inr d \<and> cell_number d = Some x"
proof -
  from assms obtain c where c: "series_get v ''ALT_FREQ'' = Inr c"
    by (cases "series_get v ''ALT_FREQ''") (simp_all add: fails_threshold_def)
  from assms c obtain y where y: "tf f = Some y"
    by (cases "tf f") (simp_all add: fails_threshold_def)
  from assms c y obtain a where a: "cell_number c = Some a"
    by (cases "cell_number c") (simp_all add: fails_threshold_def)
  from assms c y a have le: "a \<le> y"
    by (cases "a \<le> y") (simp_all add: fails_threshold_def)
  from assms c y a le obtain d where d: "series_get v ''ALT_DP'' = Inr d"
    by (cases "series_get v ''ALT_DP''") (simp_all add: fails_threshold_def)
  from assms c y a le d obtain z where z: "ti m = Some z"
    by (cases "ti m") (simp_all add: fails_threshold_def)
  from assms c y a le d z obtain x where x: "cell_number d = Some x"
    by (cases "cell_number d") (simp_all add: fails_threshold_def)
  from c a d x show ?thesis by blast
qed

lemma fails_threshold_cells:
  assumes "series_get v ''ALT_FREQ'' = Inr c" and "cell_number c = Some a"
    and "series_get v ''ALT_DP'' = Inr d" and "cell_number d = Some x"
    and "tf f = Some y" and "ti m = Some z"
  shows "fails_threshold tf ti f m v = Inr (a \<le> y \<and> x < of_int z)"
  using assms by (simp add: fails_threshold_def)

lemma verdict_True_total:
  assumes "fails_threshold tf ti f m v = Inr True"
    and "tf f' \<noteq> None" and "ti m' \<noteq> None"
  shows "\<exists>b. fails_threshold tf ti f' m' v = Inr b"
proof -
  from fails_threshold_True_cells [OF assms(1)] obtain c a d x where
    "series_get v ''ALT_FREQ'' = Inr c" "cell_number c = Some a"
    "series_get v ''ALT_DP'' = Inr d" "cell_number d = Some x" by blast
  moreover from assms(2,3) obtain y z where "tf f' = Some y" "ti m' = Some z" by auto
  ultimately show ?thesis
    using fails_threshold_cells [of v c a d x tf f' y ti m' z] by blast
qed

lemma readable_iff:
  "readable tf ti s \<longleftrightarrow> (\<exists>f m. s = [f, m] \<and> tf f \<noteq> None \<and> ti m \<noteq> None)"
proof (cases s)
  case Nil
  then show ?thesis by (simp add: readable_def)
next
  case (Cons f r)
  show ?thesis
  proof (cases r)
    case Nil
    with Cons show ?thesis by (simp add: readable_def)
  next
    case (Cons m r')
    with \<open>s = f # r\<close> show ?thesis by (cases r') (simp_all add: readable_def)
  qed
qed

lemma setting_verdict_pair [simp]:
  "setting_verdict tf ti [f, m] v = fails_threshold tf ti f m v"
  by (simp add: setting_verdict_def)

lemma apply_settings_pair:
  "apply_settings tf ti ([f, m] # settings) rows =
     (case drop_failing tf ti f m rows of
        Inl e \<Rightarrow> Inl e
      | Inr kept \<Rightarrow> apply_settings tf ti settings kept)"
  by simp


lemma apply_settings_returns:
  assumes "\<forall>s \<in> set settings. readable tf ti s"
  shows "(\<exists>kept. apply_settings tf ti settings rows = Inr kept)
     \<longleftrightarrow> (\<forall>v \<in> set rows. \<forall>s \<in> set settings. \<exists>b. setting_verdict tf ti s v = Inr b)"
  using assms
proof (induction settings arbitrary: rows)
  case Nil
  then show ?case by simp
next
  case (Cons s settings)
  from Cons.prems have "readable tf ti s" by simp
  then obtain f m where s: "s = [f, m]" and rd: "tf f \<noteq> None" "ti m \<noteq> None"
    unfolding readable_iff by blast
  have rest: "\<forall>s \<in> set settings. readable tf ti s"
    using Cons.prems by simp
  have later: "\<exists>b. setting_verdict tf ti s' v = Inr b"
    if "fails_threshold tf ti f m v = Inr True" and "s' \<in> set settings" for v s'
  proof -
    from rest that(2) have "readable tf ti s'" by blast
    then obtain f' m' where "s' = [f', m']" "tf f' \<noteq> None" "ti m' \<noteq> None"
      unfolding readable_iff by blast
    with verdict_True_total [OF that(1)] show ?thesis
      by simp
  qed
  show ?case
  proof
    assume "\<exists>kept. apply_settings tf ti (s # settings) rows = Inr kept"
    then obtain kept where kept: "apply_settings tf ti ([f, m] # settings) rows = Inr kept"
      unfolding s by blast
    then obtain mid where
      mid: "drop_failing tf ti f m rows = Inr mid" and
      k: "apply_settings tf ti settings mid = Inr kept"
      unfolding apply_settings_pair by (cases "drop_failing tf ti f m rows") simp_all
    have all: "\<forall>v \<in> set rows. \<exists>b. fails_threshold tf ti f m v = Inr b"
      using mid drop_failing_returns [of tf ti f m rows] by blast
    have midset: "mid = filter (\<lambda>v. fails_threshold tf ti f m v = Inr False) rows"
      using mid by (rule drop_failing_result)
    have ih: "\<forall>v \<in> set mid. \<forall>s \<in> set settings. \<exists>b. setting_verdict tf ti s v = Inr b"
      using Cons.IH [OF rest, of mid] k by blast
    show "\<forall>v \<in> set rows. \<forall>s' \<in> set (s # settings). \<exists>b. setting_verdict tf ti s' v = Inr b"
    proof (intro ballI)
      fix v s' assume v: "v \<in> set rows" and s': "s' \<in> set (s # settings)"
      from all v obtain b where b: "fails_threshold tf ti f m v = Inr b" by blast
      show "\<exists>b. setting_verdict tf ti s' v = Inr b"
      proof (cases "s' = s")
        case True
        with b show ?thesis by (simp add: s)
      next
        case False
        with s' have in_rest: "s' \<in> set settings" by simp
        show ?thesis
        proof (cases b)
          case True
          with b have "fails_threshold tf ti f m v = Inr True" by simp
          from later [OF this in_rest] show ?thesis .
        next
          case False
          with b v have "v \<in> set mid" by (simp add: midset)
          with ih in_rest show ?thesis by blast
        qed
      qed
    qed
  next
    assume r: "\<forall>v \<in> set rows. \<forall>s' \<in> set (s # settings). \<exists>b. setting_verdict tf ti s' v = Inr b"
    have "\<forall>v \<in> set rows. \<exists>b. fails_threshold tf ti f m v = Inr b"
    proof
      fix v assume "v \<in> set rows"
      with r have "\<exists>b. setting_verdict tf ti s v = Inr b" by simp
      then show "\<exists>b. fails_threshold tf ti f m v = Inr b" by (simp add: s)
    qed
    then obtain mid where mid: "drop_failing tf ti f m rows = Inr mid"
      using drop_failing_returns [of tf ti f m rows] by blast
    have "set mid \<subseteq> set rows"
      unfolding drop_failing_result [OF mid] by (rule filter_is_subset)
    with r have "\<forall>v \<in> set mid. \<forall>s \<in> set settings. \<exists>b. setting_verdict tf ti s v = Inr b"
      by (meson list.set_intros(2) subsetD)
    then obtain kept where "apply_settings tf ti settings mid = Inr kept"
      using Cons.IH [OF rest, of mid] by blast
    with mid have "apply_settings tf ti ([f, m] # settings) rows = Inr kept"
      unfolding apply_settings_pair by simp
    then show "\<exists>kept. apply_settings tf ti (s # settings) rows = Inr kept"
      unfolding s by blast
  qed
qed


lemma apply_settings_reordered:
  assumes "set settings' = set settings" and "\<forall>s \<in> set settings. readable tf ti s"
  shows "apply_settings tf ti settings' rows = Inr kept \<longleftrightarrow> apply_settings tf ti settings rows = Inr kept"
proof -
  have r': "\<forall>s \<in> set settings'. readable tf ti s" using assms by simp
  have same: "(\<exists>k. apply_settings tf ti settings' rows = Inr k) \<longleftrightarrow> (\<exists>k. apply_settings tf ti settings rows = Inr k)"
    unfolding apply_settings_returns [OF assms(2)] apply_settings_returns [OF r'] assms(1) ..
  show ?thesis
  proof
    assume a: "apply_settings tf ti settings' rows = Inr kept"
    with same obtain k where k: "apply_settings tf ti settings rows = Inr k" by blast
    from apply_settings_same_table [OF assms(1) k a] k show "apply_settings tf ti settings rows = Inr kept" by simp
  next
    assume a: "apply_settings tf ti settings rows = Inr kept"
    with same obtain k where k: "apply_settings tf ti settings' rows = Inr k" by blast
    from apply_settings_same_table [OF assms(1) a k] k show "apply_settings tf ti settings' rows = Inr kept" by simp
  qed
qed

lemma ladder_example:
  "drop_failing decimal_float decimal_int ''0.01'' ''1000''
       [[(''ALT_FREQ'', FloatC (3 / 100)), (''ALT_DP'', IntC 250)]]
     = Inr [[(''ALT_FREQ'', FloatC (3 / 100)), (''ALT_DP'', IntC 250)]]
   \<and> drop_failing decimal_float decimal_int ''0.05'' ''300''
       [[(''ALT_FREQ'', FloatC (3 / 100)), (''ALT_DP'', IntC 250)]]
     = Inr []
   \<and> low_freq_depth_filter decimal_float decimal_int (Some ''0.01:1000-0.05:300'')
       [[(''ALT_FREQ'', FloatC (3 / 100)), (''ALT_DP'', IntC 250)]]
     = Inr []"
  by code_simp

text \<open>
  Claim C1. The settings are sorted by their first part as a string, not by the
  frequency it denotes. For \<^verbatim>\<open>1:1000-5:300-10:100\<close> (the percentages of the comment
  in the code) the pairs are applied in the order 1, 10, 5, and for
  \<^verbatim>\<open>0.01:1000-.05:300\<close> in the order 0.05, 0.01: neither is ascending in
  frequency.
\<close>

theorem ladder_sorted_as_strings:
  "sorted_settings ''1:1000-5:300-10:100''
     = [[''1'', ''1000''], [''10'', ''100''], [''5'', ''300'']]
   \<and> map (\<lambda>x. decimal_float (hd x)) (sorted_settings ''1:1000-5:300-10:100'')
     = [Some 1, Some 10, Some 5]
   \<and> sorted_settings ''0.01:1000-.05:300'' = [[''.05'', ''300''], [''0.01'', ''1000'']]
   \<and> map (\<lambda>x. decimal_float (hd x)) (sorted_settings ''0.01:1000-.05:300'')
     = [Some (5 / 100), Some (1 / 100)]"
  by code_simp

text \<open>
  Claim C9, as amended. The table the filter leaves does not depend on the order in
  which the pairs are applied: a row is kept exactly when the condition is false for it
  at every pair; two orders of the same pairs that both return leave the same table; and
  when every setting denotes a frequency and a depth, one order returns a table exactly
  when the other does, and it is the same table.
\<close>

theorem ladder_order_irrelevant:
  assumes "set settings' = set settings"
  shows "(apply_settings to_float to_int settings rows = Inr kept
            \<longrightarrow> kept = filter (\<lambda>v. \<forall>s \<in> set settings.
                                  setting_verdict to_float to_int s v = Inr False) rows)
       \<and> (apply_settings to_float to_int settings rows = Inr kept
            \<and> apply_settings to_float to_int settings' rows = Inr kept' \<longrightarrow> kept' = kept)
       \<and> ((\<forall>s \<in> set settings. readable to_float to_int s)
            \<longrightarrow> (apply_settings to_float to_int settings' rows = Inr kept
                   \<longleftrightarrow> apply_settings to_float to_int settings rows = Inr kept))"
  using assms apply_settings_result [of to_float to_int settings rows kept]
    apply_settings_same_table [of settings' settings to_float to_int rows kept kept']
    apply_settings_reordered [of settings' settings to_float to_int rows kept]
  by blast

theorem ladder_order_irrelevant_witness:
  "apply_settings decimal_float decimal_int [[''0.05'', ''300''], [''0.01'', ''1000'']]
       [[(''ALT_FREQ'', FloatC (3 / 100)), (''ALT_DP'', IntC 250)],
        [(''ALT_FREQ'', FloatC (1 / 200)), (''ALT_DP'', IntC 800)],
        [(''ALT_FREQ'', FloatC (3 / 100)), (''ALT_DP'', IntC 400)]]
     = Inr [[(''ALT_FREQ'', FloatC (3 / 100)), (''ALT_DP'', IntC 400)]]"
proof -
  have ascending:
    "apply_settings decimal_float decimal_int [[''0.01'', ''1000''], [''0.05'', ''300'']]
       [[(''ALT_FREQ'', FloatC (3 / 100)), (''ALT_DP'', IntC 250)],
        [(''ALT_FREQ'', FloatC (1 / 200)), (''ALT_DP'', IntC 800)],
        [(''ALT_FREQ'', FloatC (3 / 100)), (''ALT_DP'', IntC 400)]]
     = Inr [[(''ALT_FREQ'', FloatC (3 / 100)), (''ALT_DP'', IntC 400)]]"
    by code_simp
  have "readable decimal_float decimal_int [''0.01'', ''1000'']"
    and "readable decimal_float decimal_int [''0.05'', ''300'']"
    by code_simp+
  then have pairs: "\<forall>s \<in> set [[''0.01'', ''1000''], [''0.05'', ''300'']].
      readable decimal_float decimal_int s"
    by simp
  have same: "set [[''0.05'', ''300''], [''0.01'', ''1000'']]
      = set [[''0.01'', ''1000''], [''0.05'', ''300'']]"
    by auto
  from ladder_order_irrelevant [OF same] pairs ascending show ?thesis
    by blast
qed

text \<open>
  Claim C9 as stated fails: there is no table and no two orders of the same settings
  for which both runs return and the rows kept differ.
\<close>

theorem ladder_order_sensitive_counterexample:
  "\<not> (\<exists>to_float to_int settings settings' rows kept kept'.
         set settings' = set settings
       \<and> apply_settings to_float to_int settings rows = Inr kept
       \<and> apply_settings to_float to_int settings' rows = Inr kept'
       \<and> set kept' \<noteq> set kept)"
  using apply_settings_same_table by blast


section \<open>Properties of the population summary\<close>

lemma update_absent: "k \<notin> fst ` set al \<Longrightarrow> AList.update k v al = al @ [(k, v)]"
  by (induction al) auto

lemma map_of_present: "map_of row l \<noteq> None \<longleftrightarrow> l \<in> fst ` set row"
  by (simp add: map_of_eq_None_iff)

lemma map_of_drop_labels:
  "map_of (filter (\<lambda>(l, v). l \<notin> S) row) l = (if l \<in> S then None else map_of row l)"
  by (induction row) auto

lemma fst_drop_labels:
  "map fst (filter (\<lambda>(l, v). l \<notin> S) row) = filter (\<lambda>l. l \<notin> S) (map fst row)"
  by (induction row) auto

lemma series_drop_present:
  "set labels \<subseteq> fst ` set row
     \<Longrightarrow> series_drop labels row = Inr (filter (\<lambda>(l, v). l \<notin> set labels) row)"
proof -
  assume "set labels \<subseteq> fst ` set row"
  then have "\<forall>l \<in> set labels. map_of row l \<noteq> None"
    unfolding map_of_present by blast
  then have "list_all (\<lambda>l. map_of row l \<noteq> None) labels"
    unfolding list_all_iff .
  then show ?thesis
    unfolding series_drop_def by (rule if_P)
qed

lemma kept_cells_labels: "map fst (kept_cells ont_artic row) = kept_columns ont_artic (map fst row)"
  by (simp add: kept_cells_def kept_columns_def fst_drop_labels)

lemma kept_columns_subset: "set (kept_columns ont_artic columns) \<subseteq> set columns"
  by (auto simp: kept_columns_def)

lemma map_of_kept_cells:
  "map_of (kept_cells ont_artic row) l
     = (if \<not> ont_artic \<and> l \<in> set per_sample_labels then None else map_of row l)"
  by (simp add: kept_cells_def map_of_drop_labels)

lemma group_row_value:
  assumes "data = first # others"
    and "''POP_COUNT'' \<notin> fst ` set first" and "''POP_FREQ'' \<notin> fst ` set first"
    and "\<not> ont_artic \<longrightarrow> set per_sample_labels \<subseteq> fst ` set first"
  shows "group_row ont_artic samples data =
           Inr (kept_cells ont_artic first
                  @ [(''POP_COUNT'', IntC (int (length data))),
                     (''POP_FREQ'', FloatC (of_nat (length data) / of_nat samples))])"
proof -
  have dropped: "(if \<not> ont_artic then series_drop per_sample_labels first else Inr first)
                   = Inr (kept_cells ont_artic first)"
    using assms(4) by (simp add: kept_cells_def series_drop_present)
  have sub: "fst ` set (kept_cells ont_artic first) \<subseteq> fst ` set first"
    using kept_columns_subset [of ont_artic "map fst first"]
    by (simp flip: kept_cells_labels set_map)
  have c: "''POP_COUNT'' \<notin> fst ` set (kept_cells ont_artic first)"
    using sub assms(2) by blast
  have f: "''POP_FREQ'' \<notin> fst ` set (kept_cells ont_artic first
              @ [(''POP_COUNT'', IntC (int (length data)))])"
    using sub assms(3) by auto
  show ?thesis
    unfolding group_row_def assms(1) list.case dropped sum.case series_set_def
    unfolding assms(1) [symmetric]
    by (simp only: update_absent [OF c] update_absent [OF f] append_assoc append_Cons append_Nil)
qed

lemma group_rows_map:
  "(\<And>data. data \<in> set groups \<Longrightarrow> group_row ont_artic samples data = Inr (g data))
     \<Longrightarrow> group_rows ont_artic samples groups = Inr (map g groups)"
  by (induction groups) simp_all

lemma set_list_insert: "set (list_insert i x xs) = insert x (set xs)"
proof -
  have "set (take i xs) \<union> set (drop i xs) = set xs"
    by (metis append_take_drop_id set_append)
  then show ?thesis by (auto simp: list_insert_def)
qed

lemma set_pop_columns:
  "set (pop_columns (columns @ [a, b])) = set columns \<union> {''POP_COUNT'', ''POP_FREQ''}"
proof -
  have "butlast (butlast (columns @ [a, b])) = columns"
    by (simp add: butlast_append)
  then show ?thesis by (auto simp: pop_columns_def set_list_insert)
qed

lemma map_of_reindex:
  "map_of (reindex columns row) l
     = (if l \<in> set columns then Some (case map_of row l of None \<Rightarrow> NoneC | Some v \<Rightarrow> v) else None)"
  by (induction columns) (auto simp: reindex_def)

lemma map_of_reindex_same:
  assumes "set columns = fst ` set row"
  shows "map_of (reindex columns row) l = map_of row l"
proof (cases "l \<in> fst ` set row")
  case True
  then obtain v where "map_of row l = Some v"
    using map_of_present [of row l] by auto
  with True assms show ?thesis by (simp add: map_of_reindex)
next
  case False
  then have "map_of row l = None" by (simp add: map_of_eq_None_iff)
  with False assms show ?thesis by (simp add: map_of_reindex)
qed

lemma group_key_cong:
  assumes "\<And>l. map_of a l = map_of b l"
  shows "group_key a = group_key b"
proof -
  have "map_of a = map_of b" by (rule ext) (rule assms)
  then show ?thesis unfolding group_key_def by (rule arg_cong)
qed

lemma group_key_cong3:
  assumes "map_of a ''POS'' = map_of b ''POS''" and "map_of a ''REF'' = map_of b ''REF''"
    and "map_of a ''ALT'' = map_of b ''ALT''"
  shows "group_key a = group_key b"
  unfolding group_key_def assms ..

lemma map_of_summary_row:
  assumes "''POP_COUNT'' \<notin> fst ` set row" and "''POP_FREQ'' \<notin> fst ` set row"
  shows "map_of (row @ [(''POP_COUNT'', c), (''POP_FREQ'', f)]) l
           = (if l = ''POP_COUNT'' then Some c else if l = ''POP_FREQ'' then Some f
              else map_of row l)"
proof -
  have "map_of row ''POP_COUNT'' = None" and "map_of row ''POP_FREQ'' = None"
    using assms by (simp_all add: map_of_eq_None_iff)
  then show ?thesis
    by (cases "map_of row l") (auto simp: map_add_def)
qed

lemma key_labels_kept:
  "''POS'' \<notin> set per_sample_labels" "''REF'' \<notin> set per_sample_labels"
  "''ALT'' \<notin> set per_sample_labels"
  by (simp_all add: per_sample_labels_def)

lemma pop_summary_value:
  assumes cols: "\<forall>row \<in> set variants. map fst row = columns"
    and four: "{''SAMPLE'', ''POS'', ''REF'', ''ALT''} \<subseteq> set columns"
    and pc: "''POP_COUNT'' \<notin> set columns" and pf: "''POP_FREQ'' \<notin> set columns"
    and per: "\<not> ont_artic \<longrightarrow> set per_sample_labels \<subseteq> set columns"
  shows "get_variant_pop_summary variants ont_artic =
           Inr (map (\<lambda>k. reindex
                      (pop_columns (kept_columns ont_artic columns @ [''POP_COUNT'', ''POP_FREQ'']))
                      (group_cells ont_artic
                         (length (remdups (map (\<lambda>row. map_of row ''SAMPLE'') variants)))
                         (filter (\<lambda>row. group_key row = Some k) variants)))
                  (sort (remdups (List.map_filter group_key variants))))"
proof -
  define samples where "samples = length (remdups (map (\<lambda>row. map_of row ''SAMPLE'') variants))"
  define keys where "keys = sort (remdups (List.map_filter group_key variants))"
  define groups where "groups = map (\<lambda>k. filter (\<lambda>row. group_key row = Some k) variants) keys"
  have labels_of: "fst ` set row = set columns" if "row \<in> set variants" for row
    using cols that by (metis set_map)
  have check: "list_all (\<lambda>row. list_all (\<lambda>l. map_of row l \<noteq> None)
                              [''SAMPLE'', ''POS'', ''REF'', ''ALT'']) variants"
    unfolding list_all_iff map_of_present using labels_of four by auto
  have first_row: "\<exists>first others. data = first # others \<and> first \<in> set variants"
    if "data \<in> set groups" for data
  proof -
    from that obtain k where k: "k \<in> set keys"
      and data: "data = filter (\<lambda>row. group_key row = Some k) variants"
      unfolding groups_def by auto
    from k have "k \<in> set (List.map_filter group_key variants)"
      unfolding keys_def by simp
    then obtain row where "row \<in> set variants" and "group_key row = Some k"
      unfolding map_filter_def by force
    then have "data \<noteq> []"
      unfolding data filter_empty_conv by blast
    then obtain first others where fo: "data = first # others"
      by (cases data) auto
    then have "first \<in> set data" by simp
    then have "first \<in> set variants" unfolding data by simp
    with fo show ?thesis by blast
  qed
  have grp: "group_row ont_artic samples data = Inr (group_cells ont_artic samples data)"
    if "data \<in> set groups" for data
  proof -
    from first_row [OF that] obtain first others where
      fo: "data = first # others" and mem: "first \<in> set variants" by blast
    have "group_row ont_artic samples data =
           Inr (kept_cells ont_artic first
                  @ [(''POP_COUNT'', IntC (int (length data))),
                     (''POP_FREQ'', FloatC (of_nat (length data) / of_nat samples))])"
      using fo pc pf per unfolding labels_of [OF mem, symmetric]
      by (rule group_row_value)
    then show ?thesis
      unfolding group_cells_def fo list.sel .
  qed
  have rows: "group_rows ont_artic samples groups = Inr (map (group_cells ont_artic samples) groups)"
    by (rule group_rows_map) (rule grp)
  have labels: "map fst (group_cells ont_artic samples data)
                  = kept_columns ont_artic columns @ [''POP_COUNT'', ''POP_FREQ'']"
    if "data \<in> set groups" for data
  proof -
    from first_row [OF that] obtain first others where
      fo: "data = first # others" and mem: "first \<in> set variants" by blast
    from cols mem have "map fst first = columns" by blast
    then show ?thesis
      unfolding group_cells_def fo list.sel by (simp add: kept_cells_labels)
  qed
  have laid_out:
    "(case map (group_cells ont_artic samples) groups of
        [] \<Rightarrow> []
      | first # _ \<Rightarrow> map (reindex (pop_columns (map fst first)))
                      (map (group_cells ont_artic samples) groups))
     = map (reindex (pop_columns (kept_columns ont_artic columns @ [''POP_COUNT'', ''POP_FREQ''])))
         (map (group_cells ont_artic samples) groups)"
  proof (cases groups)
    case Nil
    then show ?thesis by simp
  next
    case (Cons data others)
    then have "data \<in> set groups" by simp
    from labels [OF this] show ?thesis
      unfolding Cons by simp
  qed
  have "get_variant_pop_summary variants ont_artic =
          (case group_rows ont_artic samples groups of
             Inl e \<Rightarrow> Inl e
           | Inr var_data \<Rightarrow>
               Inr (case var_data of
                      [] \<Rightarrow> []
                    | first # _ \<Rightarrow> map (reindex (pop_columns (map fst first))) var_data))"
    unfolding get_variant_pop_summary_def Let_def samples_def keys_def groups_def
    using check by simp
  also have "\<dots> = Inr (map (reindex (pop_columns (kept_columns ont_artic columns
                            @ [''POP_COUNT'', ''POP_FREQ''])))
                     (map (group_cells ont_artic samples) groups))"
    unfolding rows sum.case laid_out ..
  finally show ?thesis
    unfolding groups_def keys_def samples_def by (simp add: comp_def)
qed

lemma summary_row_lookup:
  assumes cols: "\<forall>row \<in> set variants. map fst row = columns"
    and pc: "''POP_COUNT'' \<notin> set columns" and pf: "''POP_FREQ'' \<notin> set columns"
    and data: "data = filter (\<lambda>row. group_key row = Some k) variants" and ne: "data \<noteq> []"
  shows "map_of (reindex
                   (pop_columns (kept_columns ont_artic columns @ [''POP_COUNT'', ''POP_FREQ'']))
                   (group_cells ont_artic samples data)) l
           = (if l = ''POP_COUNT'' then Some (IntC (int (length data)))
              else if l = ''POP_FREQ'' then Some (FloatC (of_nat (length data) / of_nat samples))
              else if \<not> ont_artic \<and> l \<in> set per_sample_labels then None
              else map_of (hd data) l)"
proof -
  from ne have "hd data \<in> set data" by simp
  then have mem: "hd data \<in> set variants" unfolding data by simp
  with cols have first: "map fst (hd data) = columns" by blast
  have kept: "map fst (kept_cells ont_artic (hd data)) = kept_columns ont_artic columns"
    by (simp add: kept_cells_labels first)
  have sub: "fst ` set (kept_cells ont_artic (hd data)) \<subseteq> set columns"
    using kept_columns_subset [of ont_artic columns] unfolding kept [symmetric] by simp
  have c: "''POP_COUNT'' \<notin> fst ` set (kept_cells ont_artic (hd data))"
    and f: "''POP_FREQ'' \<notin> fst ` set (kept_cells ont_artic (hd data))"
    using sub pc pf by blast+
  have "fst ` set (group_cells ont_artic samples data)
          = set (kept_columns ont_artic columns) \<union> {''POP_COUNT'', ''POP_FREQ''}"
    unfolding group_cells_def kept [symmetric] by auto
  then have same: "set (pop_columns (kept_columns ont_artic columns @ [''POP_COUNT'', ''POP_FREQ'']))
          = fst ` set (group_cells ont_artic samples data)"
    unfolding set_pop_columns by simp
  show ?thesis
    unfolding map_of_reindex_same [OF same]
    unfolding group_cells_def map_of_summary_row [OF c f] map_of_kept_cells
    by simp
qed

lemma summary_row_key:
  assumes cols: "\<forall>row \<in> set variants. map fst row = columns"
    and pc: "''POP_COUNT'' \<notin> set columns" and pf: "''POP_FREQ'' \<notin> set columns"
    and data: "data = filter (\<lambda>row. group_key row = Some k) variants" and ne: "data \<noteq> []"
  shows "group_key (reindex
                   (pop_columns (kept_columns ont_artic columns @ [''POP_COUNT'', ''POP_FREQ'']))
                   (group_cells ont_artic samples data)) = Some k"
proof -
  from ne have "hd data \<in> set data" by simp
  then have key: "group_key (hd data) = Some k" unfolding data by simp
  have "group_key (reindex
                   (pop_columns (kept_columns ont_artic columns @ [''POP_COUNT'', ''POP_FREQ'']))
                   (group_cells ont_artic samples data)) = group_key (hd data)"
    by (rule group_key_cong3)
      (simp_all add: summary_row_lookup [OF cols pc pf data ne] key_labels_kept)
  with key show ?thesis by simp
qed

text \<open>
  Claim C6, as amended. For a table whose rows carry the same columns, among them
  \<^verbatim>\<open>SAMPLE\<close>, \<^verbatim>\<open>POS\<close>, \<^verbatim>\<open>REF\<close> and \<^verbatim>\<open>ALT\<close> (and, for an iVar table, the
  eleven per-sample columns), the summary has one row for each key
  \<^verbatim>\<open>(POS, REF, ALT)\<close> of the table, in ascending order of the key. The row of a key
  found in \<open>k\<close> rows of a table of \<open>N\<close> distinct samples has \<^verbatim>\<open>POP_COUNT\<close> \<open>k\<close> and
  \<^verbatim>\<open>POP_FREQ\<close> \<open>k / N\<close>; its other cells are those of the first row of the group,
  without the per-sample columns when the table is an iVar table
  (\<^verbatim>\<open>ont_artic\<close> false), and all of them when it is a Medaka table.
\<close>

theorem pop_summary_groups:
  assumes cols: "\<forall>row \<in> set variants. map fst row = columns"
    and four: "{''SAMPLE'', ''POS'', ''REF'', ''ALT''} \<subseteq> set columns"
    and pc: "''POP_COUNT'' \<notin> set columns" and pf: "''POP_FREQ'' \<notin> set columns"
    and per: "\<not> ont_artic \<longrightarrow> set per_sample_labels \<subseteq> set columns"
  shows "\<exists>out. get_variant_pop_summary variants ont_artic = Inr out
     \<and> map group_key out = map Some (sort (remdups (List.map_filter group_key variants)))
     \<and> (\<forall>srow \<in> set out. \<forall>k. group_key srow = Some k \<longrightarrow>
          (let data = filter (\<lambda>row. group_key row = Some k) variants;
               samples = length (remdups (map (\<lambda>row. map_of row ''SAMPLE'') variants))
           in data \<noteq> [] \<and> 0 < samples
            \<and> map_of srow ''POP_COUNT'' = Some (IntC (int (length data)))
            \<and> map_of srow ''POP_FREQ'' = Some (FloatC (of_nat (length data) / of_nat samples))
            \<and> (\<forall>l. l \<noteq> ''POP_COUNT'' \<and> l \<noteq> ''POP_FREQ'' \<longrightarrow>
                 map_of srow l = (if \<not> ont_artic \<and> l \<in> set per_sample_labels then None
                               else map_of (hd data) l))))"
proof -
  define samples where "samples = length (remdups (map (\<lambda>row. map_of row ''SAMPLE'') variants))"
  define keys where "keys = sort (remdups (List.map_filter group_key variants))"
  define layout where
    "layout = pop_columns (kept_columns ont_artic columns @ [''POP_COUNT'', ''POP_FREQ''])"
  define summary where
    "summary = (\<lambda>k. reindex layout
        (group_cells ont_artic samples (filter (\<lambda>row. group_key row = Some k) variants)))"
  define out where "out = map summary keys"
  have result: "get_variant_pop_summary variants ont_artic = Inr out"
    unfolding out_def summary_def layout_def keys_def samples_def
    using cols four pc pf per by (rule pop_summary_value)
  have nonempty: "filter (\<lambda>row. group_key row = Some k) variants \<noteq> []" if "k \<in> set keys" for k
  proof -
    from that have "k \<in> set (List.map_filter group_key variants)"
      unfolding keys_def by simp
    then obtain row where "row \<in> set variants" and "group_key row = Some k"
      unfolding map_filter_def by force
    then show ?thesis unfolding filter_empty_conv by blast
  qed
  have key: "group_key (summary k) = Some k" if "k \<in> set keys" for k
    unfolding summary_def layout_def
    using cols pc pf refl nonempty [OF that] by (rule summary_row_key)
  have lookup: "map_of (summary k) l
           = (if l = ''POP_COUNT''
              then Some (IntC (int (length (filter (\<lambda>row. group_key row = Some k) variants))))
              else if l = ''POP_FREQ''
              then Some (FloatC (of_nat (length (filter (\<lambda>row. group_key row = Some k) variants))
                                   / of_nat samples))
              else if \<not> ont_artic \<and> l \<in> set per_sample_labels then None
              else map_of (hd (filter (\<lambda>row. group_key row = Some k) variants)) l)"
    if "k \<in> set keys" for k l
    unfolding summary_def layout_def
    using cols pc pf refl nonempty [OF that] by (rule summary_row_lookup)
  have some_sample: "0 < samples" if "k \<in> set keys" for k
  proof -
    from nonempty [OF that] have "variants \<noteq> []" by auto
    then have "remdups (map (\<lambda>row. map_of row ''SAMPLE'') variants) \<noteq> []" by simp
    then show ?thesis unfolding samples_def by simp
  qed
  have keys_out: "map group_key out = map Some keys"
    unfolding out_def by (simp add: key)
  have rows: "\<forall>srow \<in> set out. \<forall>k. group_key srow = Some k \<longrightarrow>
          (let data = filter (\<lambda>row. group_key row = Some k) variants;
               samples = length (remdups (map (\<lambda>row. map_of row ''SAMPLE'') variants))
           in data \<noteq> [] \<and> 0 < samples
            \<and> map_of srow ''POP_COUNT'' = Some (IntC (int (length data)))
            \<and> map_of srow ''POP_FREQ'' = Some (FloatC (of_nat (length data) / of_nat samples))
            \<and> (\<forall>l. l \<noteq> ''POP_COUNT'' \<and> l \<noteq> ''POP_FREQ'' \<longrightarrow>
                 map_of srow l = (if \<not> ont_artic \<and> l \<in> set per_sample_labels then None
                               else map_of (hd data) l)))"
  proof (intro ballI allI impI)
    fix srow k assume "srow \<in> set out" and ok: "group_key srow = Some k"
    then obtain k' where k': "k' \<in> set keys" and srow: "srow = summary k'"
      unfolding out_def by auto
    from key [OF k'] ok srow have "k' = k" by simp
    with k' srow have k: "k \<in> set keys" and srow: "srow = summary k" by simp_all
    show "let data = filter (\<lambda>row. group_key row = Some k) variants;
               samples = length (remdups (map (\<lambda>row. map_of row ''SAMPLE'') variants))
           in data \<noteq> [] \<and> 0 < samples
            \<and> map_of srow ''POP_COUNT'' = Some (IntC (int (length data)))
            \<and> map_of srow ''POP_FREQ'' = Some (FloatC (of_nat (length data) / of_nat samples))
            \<and> (\<forall>l. l \<noteq> ''POP_COUNT'' \<and> l \<noteq> ''POP_FREQ'' \<longrightarrow>
                 map_of srow l = (if \<not> ont_artic \<and> l \<in> set per_sample_labels then None
                               else map_of (hd data) l))"
      unfolding Let_def samples_def [symmetric] srow
      using nonempty [OF k] some_sample [OF k] by (simp add: lookup [OF k])
  qed
  from result keys_out rows show ?thesis
    unfolding keys_def by blast
qed

lemma pop_summary_ivar_example:
  "get_variant_pop_summary ivar_example False =
     Inr [[(''REGION'', StrC ''ref''), (''POP_COUNT'', IntC 1), (''POP_FREQ'', FloatC (1 / 3)),
           (''POS'', IntC 10), (''REF'', StrC ''C''), (''ALT'', StrC ''T''),
           (''APOBEC3'', BoolC False)],
          [(''REGION'', StrC ''ref''), (''POP_COUNT'', IntC 2), (''POP_FREQ'', FloatC (2 / 3)),
           (''POS'', IntC 20), (''REF'', StrC ''G''), (''ALT'', StrC ''A''),
           (''APOBEC3'', BoolC True)]]"
  by code_simp

theorem pop_summary_groups_witness:
  "\<exists>out. get_variant_pop_summary ivar_example False = Inr out
     \<and> map group_key out = [Some (10, ''C'', ''T''), Some (20, ''G'', ''A'')]"
proof -
  have cols: "\<forall>row \<in> set ivar_example. map fst row = ivar_columns"
    by (simp add: ivar_example_def ivar_row_def ivar_columns_def)
  have four: "{''SAMPLE'', ''POS'', ''REF'', ''ALT''} \<subseteq> set ivar_columns"
    by (simp add: ivar_columns_def)
  have pc: "''POP_COUNT'' \<notin> set ivar_columns" and pf: "''POP_FREQ'' \<notin> set ivar_columns"
    by (simp_all add: ivar_columns_def)
  have per: "\<not> False \<longrightarrow> set per_sample_labels \<subseteq> set ivar_columns"
    by (simp add: per_sample_labels_def ivar_columns_def)
  have keys: "sort (remdups (List.map_filter group_key ivar_example))
                = [(10, ''C'', ''T''), (20, ''G'', ''A'')]"
    by code_simp
  from pop_summary_groups [OF cols four pc pf per] show ?thesis
    unfolding keys by auto
qed

text \<open>
  Claim C6 as stated fails on a Medaka table (\<^verbatim>\<open>ont_artic\<close> true): nothing is
  dropped, and the summary row keeps the quality and the sample name of the first row of
  the group.
\<close>

theorem pop_summary_keeps_sample_fields_counterexample:
  "get_variant_pop_summary medaka_example True =
     Inr [[(''CHROM'', StrC ''ref''), (''POP_COUNT'', IntC 2), (''POP_FREQ'', FloatC 1),
           (''POS'', IntC 10), (''REF'', StrC ''C''), (''ALT'', StrC ''T''),
           (''QUAL'', FloatC 45), (''FILTER'', NoneC), (''SAMPLE'', StrC ''s1'')]]"
  by code_simp

end
